theory Spec2Isabelle
  imports Main "HOL-Library.Word"
begin

section \<open>Python strings and byte strings\<close>

text \<open>
  A Python \<open>str\<close> is a \<open>string\<close>, a \<open>bytes\<close> value a list of 8-bit words. Only the
  separator \<open>/\<close> and the dot are ever inspected by \<open>keg/cdn.py\<close>.
\<close>

type_synonym bytes = "8 word list"

definition sep :: char where
  "sep = CHR ''/''"

text \<open>\<open>s.lstrip("/")\<close> removes every leading separator, \<open>s.rstrip("/")\<close> every trailing one.\<close>

definition lstrip_sep :: "string \<Rightarrow> string" where
  "lstrip_sep s = dropWhile (\<lambda>c. c = sep) s"

definition rstrip_sep :: "string \<Rightarrow> string" where
  "rstrip_sep s = rev (dropWhile (\<lambda>c. c = sep) (rev s))"



text \<open>
  \<open>xs[i:]\<close> for a possibly negative \<open>i\<close>: a negative start counts from the end and is
  clamped at the beginning of the sequence.
\<close>

definition slice_from :: "int \<Rightarrow> 'a list \<Rightarrow> 'a list" where
  "slice_from i xs =
     (if i < 0 then drop (nat (max 0 (int (length xs) + i))) xs else drop (nat i) xs)"

section \<open>\<open>posixpath\<close>\<close>

text \<open>
  \<open>os.path.split\<close>: the head is everything up to the last separator, with its trailing
  separators removed unless it consists of separators only; the tail is the rest.
\<close>

definition rfind_sep_succ :: "string \<Rightarrow> nat" where
  \<comment> \<open>\<open>p.rfind("/") + 1\<close>, which is \<open>0\<close> when there is no separator\<close>
  "rfind_sep_succ p = length p - length (takeWhile (\<lambda>c. c \<noteq> sep) (rev p))"

definition os_path_split :: "string \<Rightarrow> string \<times> string" where
  "os_path_split p =
     (let i = rfind_sep_succ p;
          head = take i p;
          tail = drop i p
      in (if head \<noteq> [] \<and> head \<noteq> replicate (length head) sep then rstrip_sep head else head,
          tail))"

definition os_path_dirname :: "string \<Rightarrow> string" where
  "os_path_dirname p =
     (let i = rfind_sep_succ p;
          head = take i p
      in if head \<noteq> [] \<and> head \<noteq> replicate (length head) sep then rstrip_sep head else head)"

text \<open>\<open>os.path.join(a, *p)\<close>: an absolute component discards what precedes it.\<close>

definition join_step :: "string \<Rightarrow> string \<Rightarrow> string" where
  "join_step path b =
     (if take 1 b = [sep] then b
      else if path = [] \<or> last path = sep then path @ b
      else path @ sep # b)"

definition os_path_join :: "string \<Rightarrow> string list \<Rightarrow> string" where
  "os_path_join a p = foldl join_step a p"

section \<open>\<open>urllib.parse.urljoin\<close> on bare paths\<close>






section \<open>The remote source\<close>


section \<open>Errors and readable streams\<close>

text \<open>
  Every exception the module can meet is a value. \<open>IntegrityError\<close> carries the content
  label and the key; \<open>IOError\<close> stands for a stream that fails while it is read.
\<close>

datatype error =
    NotImplementedError
  | ValueError
  | NetworkError int string
  | IntegrityError string string
  | ArmadilloKeyNotFound string
  | FileNotFoundError
  | FileExistsError
  | IsADirectoryError
  | NotADirectoryError
  | IOError

text \<open>
  An \<open>IO\<close> object opened for reading: the bytes not yet delivered, and whether the stream
  breaks after them instead of reaching a clean end. \<open>read(size)\<close> with a negative size
  (and \<open>read()\<close>, which is \<open>read(-1)\<close>) delivers everything up to the end, so it raises
  on a stream that breaks; \<open>read(0)\<close> delivers nothing; a positive size delivers at most
  that many bytes, and the empty byte string only at the end.
\<close>

record source =
  pending :: bytes
  broken :: bool

definition read :: "int \<Rightarrow> source \<Rightarrow> error + bytes \<times> source" where
  "read sz fp =
     (if sz < 0 then
        (if broken fp then Inl IOError else Inr (pending fp, fp\<lparr>pending := []\<rparr>))
      else if sz = 0 then Inr ([], fp)
      else if pending fp = [] then
        (if broken fp then Inl IOError else Inr ([], fp))
      else Inr (take (nat sz) (pending fp), fp\<lparr>pending := drop (nat sz) (pending fp)\<rparr>))"

section \<open>Logical paths\<close>

text \<open>
  \<open>partition_hash\<close> lives in \<open>keg/utils.py\<close>; the path functions take it as the parameter
  \<open>ph\<close>, which may raise.
\<close>

definition get_config_path :: "(string \<Rightarrow> error + string) \<Rightarrow> string \<Rightarrow> error + string" where
  "get_config_path ph key = (case ph key of Inl e \<Rightarrow> Inl e | Inr p \<Rightarrow> Inr (''/config/'' @ p))"

definition get_data_path :: "(string \<Rightarrow> error + string) \<Rightarrow> string \<Rightarrow> error + string" where
  "get_data_path ph key = (case ph key of Inl e \<Rightarrow> Inl e | Inr p \<Rightarrow> Inr (''/data/'' @ p))"

definition get_data_index_path :: "(string \<Rightarrow> error + string) \<Rightarrow> string \<Rightarrow> error + string" where
  "get_data_index_path ph key =
     (case get_data_path ph key of Inl e \<Rightarrow> Inl e | Inr p \<Rightarrow> Inr (p @ ''.index''))"

definition get_patch_path :: "(string \<Rightarrow> error + string) \<Rightarrow> string \<Rightarrow> error + string" where
  "get_patch_path ph key = (case ph key of Inl e \<Rightarrow> Inl e | Inr p \<Rightarrow> Inr (''/patch/'' @ p))"

definition get_patch_index_path :: "(string \<Rightarrow> error + string) \<Rightarrow> string \<Rightarrow> error + string" where
  "get_patch_index_path ph key =
     (case get_patch_path ph key of Inl e \<Rightarrow> Inl e | Inr p \<Rightarrow> Inr (p @ ''.index''))"

section \<open>The content source\<close>

text \<open>
  Modelled from the spec: \<open>verify_data\<close> of \<open>keg/utils.py\<close>, which is not among the
  sources. The spec describes it as a hash-and-compare routine taking a label, the data,
  the key and the verify flag, raising \<open>IntegrityError\<close> with the label and the key on a
  mismatch. The digest function is the parameter \<open>H\<close>.
\<close>

definition verify_data :: "(bytes \<Rightarrow> string) \<Rightarrow> string \<Rightarrow> bytes \<Rightarrow> string \<Rightarrow> bool \<Rightarrow> error + unit" where
  "verify_data H object_name data key verify =
     (if verify \<and> H data \<noteq> key then Inl (IntegrityError object_name key) else Inr ())"

text \<open>
  \<open>BaseCDN\<close>: the backend's \<open>get_item\<close> is the parameter \<open>gi\<close>. A \<open>with\<close> block reads the
  whole stream and closes it.
\<close>

definition read_item :: "(string \<Rightarrow> error + source) \<Rightarrow> string \<Rightarrow> error + bytes" where
  \<comment> \<open>\<open>with self.get_item(path) as resp: data = resp.read()\<close>\<close>
  "read_item gi p =
     (case gi p of Inl e \<Rightarrow> Inl e
      | Inr resp \<Rightarrow> (case read (- 1) resp of Inl e \<Rightarrow> Inl e | Inr (data, _) \<Rightarrow> Inr data))"

definition fetch_config ::
  "(bytes \<Rightarrow> string) \<Rightarrow> (string \<Rightarrow> error + source) \<Rightarrow> (string \<Rightarrow> error + string)
    \<Rightarrow> string \<Rightarrow> bool \<Rightarrow> error + bytes" where
  "fetch_config H gi ph key verify =
     (case get_config_path ph key of Inl e \<Rightarrow> Inl e
      | Inr p \<Rightarrow>
          (case read_item gi p of Inl e \<Rightarrow> Inl e
           | Inr data \<Rightarrow>
               (case verify_data H ''config file'' data key verify of
                  Inl e \<Rightarrow> Inl e | Inr _ \<Rightarrow> Inr data)))"

definition fetch_index ::
  "(string \<Rightarrow> error + source) \<Rightarrow> (string \<Rightarrow> error + string) \<Rightarrow> string \<Rightarrow> bool \<Rightarrow> error + bytes" where
  "fetch_index gi ph key verify =
     (case get_data_index_path ph key of Inl e \<Rightarrow> Inl e | Inr p \<Rightarrow> read_item gi p)"

definition fetch_patch ::
  "(bytes \<Rightarrow> string) \<Rightarrow> (string \<Rightarrow> error + source) \<Rightarrow> (string \<Rightarrow> error + string)
    \<Rightarrow> string \<Rightarrow> bool \<Rightarrow> error + bytes" where
  "fetch_patch H gi ph key verify =
     (case get_patch_path ph key of Inl e \<Rightarrow> Inl e
      | Inr p \<Rightarrow>
          (case read_item gi p of Inl e \<Rightarrow> Inl e
           | Inr data \<Rightarrow>
               (case verify_data H ''patch file'' data key verify of
                  Inl e \<Rightarrow> Inl e | Inr _ \<Rightarrow> Inr data)))"

definition fetch_patch_index ::
  "(bytes \<Rightarrow> string) \<Rightarrow> (string \<Rightarrow> error + source) \<Rightarrow> (string \<Rightarrow> error + string)
    \<Rightarrow> string \<Rightarrow> bool \<Rightarrow> error + bytes" where
  "fetch_patch_index H gi ph key verify =
     (case get_patch_index_path ph key of Inl e \<Rightarrow> Inl e
      | Inr p \<Rightarrow>
          (case read_item gi p of Inl e \<Rightarrow> Inl e
           | Inr data \<Rightarrow>
               (case verify_data H ''patch index'' (slice_from (- 28) data) key verify of
                  Inl e \<Rightarrow> Inl e | Inr _ \<Rightarrow> Inr data)))"

definition download_data ::
  "(string \<Rightarrow> error + source) \<Rightarrow> (string \<Rightarrow> error + string) \<Rightarrow> string \<Rightarrow> bool \<Rightarrow> error + source" where
  "download_data gi ph key verify =
     (case get_data_path ph key of Inl e \<Rightarrow> Inl e | Inr p \<Rightarrow> gi p)"

section \<open>The filesystem\<close>

text \<open>
  The disk is a finite map from path names to nodes. The kernel ignores trailing
  separators when it looks a name up, a name made of separators only is the root
  directory, which always exists, and the empty name names nothing. Beyond that two
  names denote the same node only when they are equal: there are no links, and no \<open>.\<close>,
  \<open>..\<close> or doubled separators inside a name. A relative name whose directory part is
  empty lies in the current directory, which exists.

  Every operation returns its outcome together with the disk it leaves behind, so that
  what an exception leaves on disk can be inspected.
\<close>

datatype node = File bytes | Dir

type_synonym fs = "string \<Rightarrow> node option"

definition resolve :: "string \<Rightarrow> string" where
  "resolve p = (if p \<noteq> [] \<and> rstrip_sep p = [] then [sep] else rstrip_sep p)"

definition stat :: "fs \<Rightarrow> string \<Rightarrow> node option" where
  "stat disk p =
     (if p = [] then None
      else if resolve p = [sep] then Some Dir
      else (case disk (resolve p) of
              Some (File c) \<Rightarrow> (if last p = sep then None else Some (File c))
            | r \<Rightarrow> r))"

definition os_path_exists :: "fs \<Rightarrow> string \<Rightarrow> bool" where
  "os_path_exists disk p = (stat disk p \<noteq> None)"

definition file_content :: "fs \<Rightarrow> string \<Rightarrow> bytes option" where
  \<comment> \<open>what a reader finds at a path: the bytes of a regular file, or nothing\<close>
  "file_content disk p = (case stat disk p of Some (File c) \<Rightarrow> Some c | _ \<Rightarrow> None)"

definition parent_error :: "fs \<Rightarrow> string \<Rightarrow> error option" where
  \<comment> \<open>the directory that is to hold a new entry has to be there\<close>
  "parent_error disk p =
     (let d = os_path_dirname (resolve p)
      in if d = [] then None
         else (case stat disk d of
                 Some Dir \<Rightarrow> None
               | Some (File _) \<Rightarrow> Some NotADirectoryError
               | None \<Rightarrow> Some FileNotFoundError))"

definition mkdir :: "string \<Rightarrow> fs \<Rightarrow> (error + unit) \<times> fs" where
  "mkdir name disk =
     (if name = [] then (Inl FileNotFoundError, disk)
      else if resolve name = [sep] \<or> disk (resolve name) \<noteq> None then (Inl FileExistsError, disk)
      else (case parent_error disk name of
              Some e \<Rightarrow> (Inl e, disk)
            | None \<Rightarrow> (Inr (), disk(resolve name \<mapsto> Dir))))"

definition makedirs_split :: "string \<Rightarrow> string \<times> string" where
  \<comment> \<open>\<open>head, tail = path.split(name); if not tail: head, tail = path.split(head)\<close>\<close>
  "makedirs_split name =
     (if snd (os_path_split name) = [] then os_path_split (fst (os_path_split name))
      else os_path_split name)"

lemma length_rstrip_sep: "length (rstrip_sep s) \<le> length s"
  unfolding rstrip_sep_def using length_dropWhile_le [of "\<lambda>c. c = sep" "rev s"] by simp

lemma length_fst_os_path_split: "length (fst (os_path_split p)) \<le> length p"
  using length_rstrip_sep [of "take (rfind_sep_succ p) p"]
  by (simp add: os_path_split_def Let_def)

lemma length_fst_os_path_split_less:
  assumes "snd (os_path_split p) \<noteq> []"
  shows "length (fst (os_path_split p)) < length p"
proof -
  from assms have "rfind_sep_succ p < length p"
    by (simp add: os_path_split_def Let_def)
  moreover have "length (rstrip_sep (take (rfind_sep_succ p) p)) \<le> length (take (rfind_sep_succ p) p)"
    by (rule length_rstrip_sep)
  ultimately show ?thesis
    by (simp add: os_path_split_def Let_def)
qed

lemma length_makedirs_split:
  assumes "snd (makedirs_split name) \<noteq> []"
  shows "length (fst (makedirs_split name)) < length name"
proof (cases "snd (os_path_split name) = []")
  case True
  with assms have "snd (os_path_split (fst (os_path_split name))) \<noteq> []"
    by (simp add: makedirs_split_def)
  then have "length (fst (os_path_split (fst (os_path_split name)))) < length (fst (os_path_split name))"
    by (rule length_fst_os_path_split_less)
  with True length_fst_os_path_split [of name] show ?thesis
    by (simp add: makedirs_split_def)
next
  case False
  then show ?thesis
    by (simp add: makedirs_split_def length_fst_os_path_split_less)
qed

text \<open>
  \<open>os.makedirs(name)\<close> with \<open>exist_ok=False\<close>: the missing ancestors are made first; a
  \<open>FileExistsError\<close> from that recursive call is swallowed.
\<close>

function makedirs :: "string \<Rightarrow> fs \<Rightarrow> (error + unit) \<times> fs" where
  "makedirs name disk =
     (if fst (makedirs_split name) \<noteq> [] \<and> snd (makedirs_split name) \<noteq> []
         \<and> \<not> os_path_exists disk (fst (makedirs_split name))
      then (case makedirs (fst (makedirs_split name)) disk of
              (Inl e, disk') \<Rightarrow>
                 (if e \<noteq> FileExistsError then (Inl e, disk')
                  else if snd (makedirs_split name) = ''.'' then (Inr (), disk')
                  else mkdir name disk')
            | (Inr _, disk') \<Rightarrow>
                 (if snd (makedirs_split name) = ''.'' then (Inr (), disk')
                  else mkdir name disk'))
      else mkdir name disk)"
  by pat_completeness auto
termination
  by (relation "measure (\<lambda>(name, disk). length name)") (auto simp: length_makedirs_split)

declare makedirs.simps [simp del]

definition ensure_dir :: "string \<Rightarrow> fs \<Rightarrow> (error + unit) \<times> fs" where
  \<comment> \<open>\<open>if not os.path.exists(d): os.makedirs(d)\<close>\<close>
  "ensure_dir d disk = (if \<not> os_path_exists disk d then makedirs d disk else (Inr (), disk))"

text \<open>
  \<open>open(p, "wb")\<close> creates or empties a regular file; the handle is the path, and
  \<open>f.write(b)\<close> appends to the file there. \<open>open(p, "rb")\<close> gives a stream over the
  bytes of the file.
\<close>

definition open_wb :: "string \<Rightarrow> fs \<Rightarrow> (error + unit) \<times> fs" where
  "open_wb p disk =
     (if p = [] then (Inl FileNotFoundError, disk)
      else if last p = sep \<or> disk p = Some Dir then (Inl IsADirectoryError, disk)
      else (case parent_error disk p of
              Some e \<Rightarrow> (Inl e, disk)
            | None \<Rightarrow> (Inr (), disk(p \<mapsto> File []))))"

definition file_write :: "string \<Rightarrow> bytes \<Rightarrow> fs \<Rightarrow> fs" where
  "file_write p b disk = (case disk p of Some (File c) \<Rightarrow> disk(p \<mapsto> File (c @ b)) | _ \<Rightarrow> disk)"

definition open_rb :: "string \<Rightarrow> fs \<Rightarrow> error + source" where
  "open_rb p disk =
     (case stat disk p of
        Some (File c) \<Rightarrow> Inr \<lparr>pending = c, broken = False\<rparr>
      | Some Dir \<Rightarrow> Inl IsADirectoryError
      | None \<Rightarrow> Inl FileNotFoundError)"

text \<open>
  \<open>os.rename(src, dst)\<close> of a regular file replaces whatever file is at \<open>dst\<close> in one
  step. Only regular files are ever renamed by this module; renaming a directory is
  outside the model and is made to fail.
\<close>

definition os_rename :: "string \<Rightarrow> string \<Rightarrow> fs \<Rightarrow> (error + unit) \<times> fs" where
  "os_rename src dst disk =
     (case stat disk src of
        None \<Rightarrow> (Inl FileNotFoundError, disk)
      | Some Dir \<Rightarrow> (Inl IsADirectoryError, disk)
      | Some (File c) \<Rightarrow>
          (if dst = [] then (Inl FileNotFoundError, disk)
           else if last dst = sep then (Inl NotADirectoryError, disk)
           else if disk dst = Some Dir then (Inl IsADirectoryError, disk)
           else (case parent_error disk dst of
                   Some e \<Rightarrow> (Inl e, disk)
                 | None \<Rightarrow> (Inr (), (disk(src := None))(dst \<mapsto> File c)))))"

section \<open>The local source\<close>

record LocalCDN =
  base_dir :: string
  fragments_dir :: string
  armadillo_dir :: string
  temp_dir :: string

definition armadillo_objects_dir :: "LocalCDN \<Rightarrow> string" where
  \<comment> \<open>set once by \<open>__init__\<close>\<close>
  "armadillo_objects_dir cdn = os_path_join (armadillo_dir cdn) [''objects'']"

definition get_full_path :: "LocalCDN \<Rightarrow> string \<Rightarrow> string" where
  "get_full_path cdn p = os_path_join (base_dir cdn) [lstrip_sep p]"

definition get_encrypted_path :: "LocalCDN \<Rightarrow> string \<Rightarrow> string" where
  "get_encrypted_path cdn p = os_path_join (armadillo_objects_dir cdn) [lstrip_sep p]"

definition get_item :: "LocalCDN \<Rightarrow> string \<Rightarrow> fs \<Rightarrow> error + source" where
  "get_item cdn p disk = open_rb (get_full_path cdn p) disk"

definition has_encrypted_file :: "LocalCDN \<Rightarrow> string \<Rightarrow> fs \<Rightarrow> bool" where
  "has_encrypted_file cdn p disk = os_path_exists disk (get_encrypted_path cdn p)"

section \<open>The caching wrapper\<close>

record HTTPCacheWrapper =
  fp :: source
  real_path :: string
  temp_path :: string
  cache_file :: string

definition HTTPCacheWrapper_init :: "source \<Rightarrow> string \<Rightarrow> fs \<Rightarrow> (error + HTTPCacheWrapper) \<times> fs" where
  "HTTPCacheWrapper_init item p disk =
     (case ensure_dir (os_path_dirname p) disk of
        (Inl e, disk1) \<Rightarrow> (Inl e, disk1)
      | (Inr _, disk1) \<Rightarrow>
          (case open_wb (p @ ''.keg_temp'') disk1 of
             (Inl e, disk2) \<Rightarrow> (Inl e, disk2)
           | (Inr _, disk2) \<Rightarrow>
               (Inr \<lparr>fp = item, real_path = p, temp_path = p @ ''.keg_temp'',
                     cache_file = p @ ''.keg_temp''\<rparr>, disk2)))"

definition HTTPCacheWrapper_read ::
  "int \<Rightarrow> HTTPCacheWrapper \<Rightarrow> fs \<Rightarrow> (error + bytes \<times> HTTPCacheWrapper) \<times> fs" where
  "HTTPCacheWrapper_read sz w disk =
     (case (if sz = - 1 then read (- 1) (fp w) else read sz (fp w)) of
        Inl e \<Rightarrow> (Inl e, disk)
      | Inr (ret, item') \<Rightarrow>
          (Inr (ret, w\<lparr>fp := item'\<rparr>),
           if ret \<noteq> [] then file_write (cache_file w) ret disk else disk))"

lemma read_shrinks:
  assumes "read sz item = Inr (b, item')" and "b \<noteq> []"
  shows "length (pending item') < length (pending item)"
proof -
  consider "sz < 0" | "sz = 0" | "0 < sz" by linarith
  then show ?thesis
  proof cases
    case 1
    with assms show ?thesis by (auto simp: read_def split: if_splits)
  next
    case 2
    with assms show ?thesis by (simp add: read_def)
  next
    case 3
    with assms show ?thesis by (auto simp: read_def split: if_splits)
  qed
qed

lemma HTTPCacheWrapper_read_shrinks:
  assumes "HTTPCacheWrapper_read sz w disk = (Inr (b, w'), disk')" and "b \<noteq> []"
  shows "length (pending (fp w')) < length (pending (fp w))"
proof (cases "read sz (fp w)")
  case (Inl e)
  with assms show ?thesis by (simp add: HTTPCacheWrapper_read_def split: if_splits)
next
  case (Inr r)
  obtain ret item' where r: "r = (ret, item')" by (cases r)
  with Inr assms have "ret = b" and "fp w' = item'"
    by (auto simp: HTTPCacheWrapper_read_def split: if_splits)
  with Inr r assms(2) show ?thesis by (simp add: read_shrinks)
qed

text \<open>The loop of \<open>close\<close>: read 8192 bytes at a time until the empty chunk.\<close>

function drain :: "HTTPCacheWrapper \<Rightarrow> fs \<Rightarrow> (error + HTTPCacheWrapper) \<times> fs" where
  "drain w disk =
     (case HTTPCacheWrapper_read 8192 w disk of
        (Inl e, disk') \<Rightarrow> (Inl e, disk')
      | (Inr (b, w'), disk') \<Rightarrow> (if b = [] then (Inr w', disk') else drain w' disk'))"
  by pat_completeness auto
termination
  by (relation "measure (\<lambda>(w, disk). length (pending (fp w)))")
    (auto dest: HTTPCacheWrapper_read_shrinks [OF sym])

declare drain.simps [simp del]

text \<open>
  \<open>close\<close>: drain the source, close the staging file, rename it onto the real path,
  close the source. Closing either handle leaves the disk as it is.
\<close>

definition HTTPCacheWrapper_close :: "HTTPCacheWrapper \<Rightarrow> fs \<Rightarrow> (error + unit) \<times> fs" where
  "HTTPCacheWrapper_close w disk =
     (case drain w disk of
        (Inl e, disk1) \<Rightarrow> (Inl e, disk1)
      | (Inr w1, disk1) \<Rightarrow> os_rename (temp_path w1) (real_path w1) disk1)"

definition save_item :: "LocalCDN \<Rightarrow> source \<Rightarrow> string \<Rightarrow> fs \<Rightarrow> (error + unit) \<times> fs" where
  "save_item cdn item p disk =
     (let cache_file_path = get_full_path cdn p
      in case HTTPCacheWrapper_init item cache_file_path disk of
           (Inl e, disk1) \<Rightarrow> (Inl e, disk1)
         | (Inr f, disk1) \<Rightarrow> HTTPCacheWrapper_close f disk1)"

section \<open>The temporary store and the encrypted objects\<close>

text \<open>The chunked copy of \<open>write_temp_file\<close>: \<open>f\<close> is the open temporary file.\<close>

function copy_loop :: "source \<Rightarrow> int \<Rightarrow> string \<Rightarrow> fs \<Rightarrow> (error + unit) \<times> fs" where
  "copy_loop item buf_size f disk =
     (case read buf_size item of
        Inl e \<Rightarrow> (Inl e, disk)
      | Inr (b, item') \<Rightarrow>
          (if b \<noteq> [] then copy_loop item' buf_size f (file_write f b disk)
           else (Inr (), disk)))"
  by pat_completeness auto
termination
  by (relation "measure (\<lambda>(item, buf_size, f, disk). length (pending item))")
    (auto dest: read_shrinks)

declare copy_loop.simps [simp del]

text \<open>\<open>uuid\<close> is the text of the identifier that \<open>uuid4()\<close> draws.\<close>

definition write_temp_file ::
  "LocalCDN \<Rightarrow> source \<Rightarrow> int \<Rightarrow> string \<Rightarrow> fs \<Rightarrow> (error + string) \<times> fs" where
  "write_temp_file cdn item buf_size uuid disk =
     (let tpath = os_path_join (temp_dir cdn) [uuid]
      in case ensure_dir (temp_dir cdn) disk of
           (Inl e, disk1) \<Rightarrow> (Inl e, disk1)
         | (Inr _, disk1) \<Rightarrow>
             (case open_wb tpath disk1 of
                (Inl e, disk2) \<Rightarrow> (Inl e, disk2)
              | (Inr _, disk2) \<Rightarrow>
                  (if buf_size < 0 then
                     (case read (- 1) item of
                        Inl e \<Rightarrow> (Inl e, disk2)
                      | Inr (b, _) \<Rightarrow> (Inr tpath, file_write tpath b disk2))
                   else
                     (case copy_loop item buf_size tpath disk2 of
                        (Inl e, disk3) \<Rightarrow> (Inl e, disk3)
                      | (Inr _, disk3) \<Rightarrow> (Inr tpath, disk3)))))"

definition write_encrypted_file ::
  "LocalCDN \<Rightarrow> source \<Rightarrow> string \<Rightarrow> int \<Rightarrow> string \<Rightarrow> fs \<Rightarrow> (error + unit) \<times> fs" where
  "write_encrypted_file cdn item p buf_size uuid disk =
     (case write_temp_file cdn item buf_size uuid disk of
        (Inl e, disk1) \<Rightarrow> (Inl e, disk1)
      | (Inr tpath, disk1) \<Rightarrow>
          (let crypt_path = get_encrypted_path cdn p;
               dirname = os_path_dirname crypt_path
           in case ensure_dir dirname disk1 of
                (Inl e, disk2) \<Rightarrow> (Inl e, disk2)
              | (Inr _, disk2) \<Rightarrow> os_rename tpath crypt_path disk2))"

text \<open>
  Modelled from the spec: \<open>partition_hash\<close> of \<open>keg/utils.py\<close>, which is not among the
  sources. The spec describes a pure transform of a key into fixed-width prefix segments
  followed by the full key, which rejects a malformed key; it gives neither the number
  nor the width of the segments. Two segments of two characters are taken here, and a
  key too short to fill them is rejected.
\<close>

definition partition_hash :: "string \<Rightarrow> error + string" where
  "partition_hash key =
     (if length key < 4 then Inl ValueError
      else Inr (take 2 key @ [sep] @ take 2 (drop 2 key) @ [sep] @ key))"

section \<open>Remote path joining\<close>



section \<open>Verification policy\<close>

lemma read_all_intact: "\<not> broken resp \<Longrightarrow> read (- 1) resp = Inr (pending resp, resp\<lparr>pending := []\<rparr>)"
  by (simp add: read_def)

lemma read_item_intact:
  "gi p = Inr resp \<Longrightarrow> \<not> broken resp \<Longrightarrow> read_item gi p = Inr (pending resp)"
  by (simp add: read_item_def read_all_intact)

lemma fetch_patch_index_result:
  assumes "ph key = Inr p" and "gi (''/patch/'' @ p @ ''.index'') = Inr resp" and "\<not> broken resp"
  shows "fetch_patch_index H gi ph key verify =
           (if verify \<and> H (slice_from (- 28) (pending resp)) \<noteq> key
            then Inl (IntegrityError ''patch index'' key) else Inr (pending resp))"
  using assms
  by (simp add: fetch_patch_index_def get_patch_index_path_def get_patch_path_def
      read_item_intact verify_data_def)

lemma slice_from_footer: "length footer = 28 \<Longrightarrow> slice_from (- 28) (body @ footer) = footer"
  by (simp add: slice_from_def)

lemma slice_from_short: "length data < 28 \<Longrightarrow> slice_from (- 28) data = data"
  by (simp add: slice_from_def)

lemma fetch_index_verify_irrelevant: "fetch_index gi ph key True = fetch_index gi ph key False"
  by (simp add: fetch_index_def)

lemma fetch_index_error_origin:
  assumes "fetch_index gi ph key verify = Inl e"
  shows "ph key = Inl e \<or> (\<exists>p. gi p = Inl e) \<or> e = IOError"
  using assms
  by (auto simp: fetch_index_def get_data_index_path_def get_data_path_def read_item_def read_def
      split: sum.splits if_splits)

lemma fetch_patch_verifies_whole_payload:
  assumes "ph key = Inr p" and "gi (''/patch/'' @ p) = Inr resp" and "\<not> broken resp"
  shows "fetch_patch H gi ph key verify =
           (if verify \<and> H (pending resp) \<noteq> key
            then Inl (IntegrityError ''patch file'' key) else Inr (pending resp))"
  using assms
  by (simp add: fetch_patch_def get_patch_path_def read_item_intact verify_data_def)

text \<open>
  C4: whatever the key, the payload and the verify flag, \<open>fetch_index\<close> returns the whole
  stream found at the data-index path. It has no digest to compare with: the result is the
  payload for \<open>verify\<close> true and false alike, so it is never an \<open>IntegrityError\<close>.
  (Where the fetch does fail, the error is that of the path function, of \<open>get_item\<close> or
  of the stream: \<open>fetch_index_error_origin\<close>. \<open>fetch_patch\<close>, by contrast, compares the
  digest of the payload with the key: \<open>fetch_patch_verifies_whole_payload\<close>.)
\<close>

theorem fetch_index_never_verifies:
  assumes "ph key = Inr p" and "gi (''/data/'' @ p @ ''.index'') = Inr resp" and "\<not> broken resp"
  shows "fetch_index gi ph key verify = Inr (pending resp)"
  using assms
  by (simp add: fetch_index_def get_data_index_path_def get_data_path_def read_item_intact)

theorem fetch_index_never_verifies_witness:
  "fetch_index (\<lambda>p. Inr \<lparr>pending = [1, 2, 3], broken = False\<rparr>) (\<lambda>k. Inr k) ''abcd'' True
     = Inr [1, 2, 3]"
  using fetch_index_never_verifies [of "\<lambda>k. Inr k" "''abcd''" "''abcd''"
      "\<lambda>p. Inr \<lparr>pending = [1, 2, 3], broken = False\<rparr>" "\<lparr>pending = [1, 2, 3], broken = False\<rparr>" True]
  by simp

text \<open>
  C5: with \<open>verify\<close> set, \<open>fetch_patch_index\<close> compares the digest of the trailing 28 bytes
  of the payload with the key and of nothing else: it returns the whole payload when they
  agree and raises \<open>IntegrityError\<close> when they do not, whatever precedes the footer.
\<close>

theorem fetch_patch_index_checks_footer:
  assumes "ph key = Inr p" and "gi (''/patch/'' @ p @ ''.index'') = Inr resp" and "\<not> broken resp"
    and "pending resp = body @ footer" and "length footer = 28"
  shows "fetch_patch_index H gi ph key True =
           (if H footer = key then Inr (body @ footer)
            else Inl (IntegrityError ''patch index'' key))"
  using assms by (simp add: fetch_patch_index_result [where p = p] slice_from_footer)

theorem fetch_patch_index_checks_footer_witness:
  "fetch_patch_index (\<lambda>d. if d = replicate 28 1 then ''abcd'' else ''ffff'')
     (\<lambda>p. Inr \<lparr>pending = [9, 9] @ replicate 28 1, broken = False\<rparr>) (\<lambda>k. Inr k) ''abcd'' True
     = Inr ([9, 9] @ replicate 28 1)"
  using fetch_patch_index_checks_footer [where ph = "\<lambda>k. Inr k" and key = "''abcd''"
      and p = "''abcd''" and gi = "\<lambda>p. Inr \<lparr>pending = [9, 9] @ replicate 28 1, broken = False\<rparr>"
      and resp = "\<lparr>pending = [9, 9] @ replicate 28 1, broken = False\<rparr>"
      and body = "[9, 9]" and footer = "replicate 28 1"
      and H = "\<lambda>d. if d = replicate 28 1 then ''abcd'' else ''ffff''"]
  by simp

text \<open>
  C8: \<open>download_data\<close> hands back the stream opened at the data path. The verify flag is
  not looked at and no byte is read, so nothing is verified.
\<close>

theorem download_data_ignores_verify:
  assumes "ph key = Inr p"
  shows "download_data gi ph key verify = gi (''/data/'' @ p)"
  using assms by (simp add: download_data_def get_data_path_def)

theorem download_data_ignores_verify_witness:
  "download_data (\<lambda>p. Inr \<lparr>pending = [7], broken = False\<rparr>) (\<lambda>k. Inr k) ''abcd'' True
     = Inr \<lparr>pending = [7], broken = False\<rparr>"
  using download_data_ignores_verify [of "\<lambda>k. Inr k" "''abcd''" "''abcd''"
      "\<lambda>p. Inr \<lparr>pending = [7], broken = False\<rparr>" True]
  by simp

text \<open>
  C10: a payload of fewer than 28 bytes is its own trailing slice, so with \<open>verify\<close> set
  \<open>fetch_patch_index\<close> compares the digest of the entire payload with the key.
\<close>

theorem fetch_patch_index_short_payload:
  assumes "ph key = Inr p" and "gi (''/patch/'' @ p @ ''.index'') = Inr resp" and "\<not> broken resp"
    and "length (pending resp) < 28"
  shows "fetch_patch_index H gi ph key True =
           (if H (pending resp) = key then Inr (pending resp)
            else Inl (IntegrityError ''patch index'' key))"
  using assms by (simp add: fetch_patch_index_result [where p = p] slice_from_short)

theorem fetch_patch_index_short_payload_witness:
  "fetch_patch_index (\<lambda>d. if d = [1, 2, 3] then ''abcd'' else ''ffff'')
     (\<lambda>p. Inr \<lparr>pending = [1, 2, 3], broken = False\<rparr>) (\<lambda>k. Inr k) ''abcd'' True
     = Inr [1, 2, 3]"
  using fetch_patch_index_short_payload [where ph = "\<lambda>k. Inr k" and key = "''abcd''"
      and p = "''abcd''" and gi = "\<lambda>p. Inr \<lparr>pending = [1, 2, 3], broken = False\<rparr>"
      and resp = "\<lparr>pending = [1, 2, 3], broken = False\<rparr>"
      and H = "\<lambda>d. if d = [1, 2, 3] then ''abcd'' else ''ffff''"]
  by simp

section \<open>Facts about paths and the filesystem\<close>

text \<open>
  A name that is not empty and does not end in a separator is looked up as it is. The
  directory part of such a name is strictly shorter than the name, and \<open>makedirs\<close>
  touches only names that are no longer than its argument and were absent before.
\<close>

lemma rstrip_sep_id: "p \<noteq> [] \<Longrightarrow> last p \<noteq> sep \<Longrightarrow> rstrip_sep p = p"
  by (cases p rule: rev_cases) (simp_all add: rstrip_sep_def)

lemma resolve_id: "p \<noteq> [] \<Longrightarrow> last p \<noteq> sep \<Longrightarrow> resolve p = p"
  by (simp add: resolve_def rstrip_sep_id)

lemma stat_plain: "p \<noteq> [] \<Longrightarrow> last p \<noteq> sep \<Longrightarrow> stat disk p = disk p"
  by (auto simp: stat_def resolve_id split: option.splits node.splits)

lemma file_content_plain: "p \<noteq> [] \<Longrightarrow> last p \<noteq> sep \<Longrightarrow>
    file_content disk p = (case disk p of Some (File c) \<Rightarrow> Some c | _ \<Rightarrow> None)"
  by (simp add: file_content_def stat_plain)

lemma file_content_no_file: "p = [] \<or> last p = sep \<Longrightarrow> file_content disk p = None"
  by (auto simp: file_content_def stat_def split: option.splits node.splits)

lemma length_resolve: "length (resolve p) \<le> length p"
  using length_rstrip_sep [of p] by (cases p) (auto simp: resolve_def)

lemma os_path_dirname_split: "os_path_dirname p = fst (os_path_split p)"
  by (simp add: os_path_dirname_def os_path_split_def Let_def)

lemma snd_os_path_split_nonempty:
  assumes "p \<noteq> []" and "last p \<noteq> sep"
  shows "snd (os_path_split p) \<noteq> []"
proof -
  from assms have "takeWhile (\<lambda>c. c \<noteq> sep) (rev p) \<noteq> []"
    by (cases p rule: rev_cases) simp_all
  then have "rfind_sep_succ p < length p"
    using assms(1) by (simp add: rfind_sep_succ_def)
  then show ?thesis
    by (simp add: os_path_split_def Let_def)
qed

lemma length_os_path_dirname:
  "p \<noteq> [] \<Longrightarrow> last p \<noteq> sep \<Longrightarrow> length (os_path_dirname p) < length p"
  by (simp add: os_path_dirname_split length_fst_os_path_split_less snd_os_path_split_nonempty)

lemma rfind_sep_succ_append:
  assumes "sep \<notin> set s"
  shows "rfind_sep_succ (p @ s) = rfind_sep_succ p"
proof -
  from assms have "takeWhile (\<lambda>c. c \<noteq> sep) (rev s @ rev p) = rev s @ takeWhile (\<lambda>c. c \<noteq> sep) (rev p)"
    by (intro takeWhile_append2) auto
  moreover have "length (takeWhile (\<lambda>c. c \<noteq> sep) (rev p)) \<le> length p"
    using length_takeWhile_le [of "\<lambda>c. c \<noteq> sep" "rev p"] by simp
  ultimately show ?thesis
    by (simp add: rfind_sep_succ_def)
qed

lemma rfind_sep_succ_le: "rfind_sep_succ p \<le> length p"
  by (simp add: rfind_sep_succ_def)

lemma os_path_dirname_append:
  "sep \<notin> set s \<Longrightarrow> os_path_dirname (p @ s) = os_path_dirname p"
  by (simp add: os_path_dirname_def rfind_sep_succ_append rfind_sep_succ_le)

lemma mkdir_frame:
  "mkdir name disk = (r, disk') \<Longrightarrow> length name < length k \<Longrightarrow> disk' k = disk k"
  using length_resolve [of name]
  by (auto simp: mkdir_def split: if_splits option.splits)

lemma makedirs_frame:
  "makedirs name disk = (r, disk') \<Longrightarrow> length name < length k \<Longrightarrow> disk' k = disk k"
proof (induction name disk arbitrary: r disk' rule: makedirs.induct)
  case (1 name disk)
  show ?case
  proof (cases "fst (makedirs_split name) \<noteq> [] \<and> snd (makedirs_split name) \<noteq> []
         \<and> \<not> os_path_exists disk (fst (makedirs_split name))")
    case True
    obtain r1 d1 where rec: "makedirs (fst (makedirs_split name)) disk = (r1, d1)"
      by (cases "makedirs (fst (makedirs_split name)) disk")
    from True have "length (fst (makedirs_split name)) < length name"
      by (simp add: length_makedirs_split)
    with "1.prems"(2) have "length (fst (makedirs_split name)) < length k" by simp
    with "1.IH" True rec have d1: "d1 k = disk k" by blast
    from "1.prems"(1) True rec
    have "(r, disk') = (r1, d1) \<or> (r, disk') = (Inr (), d1) \<or> mkdir name d1 = (r, disk')"
      by (subst (asm) makedirs.simps) (auto split: sum.splits if_splits)
    with d1 "1.prems"(2) show ?thesis
      by (auto dest: mkdir_frame)
  next
    case False
    with "1.prems"(1) have "mkdir name disk = (r, disk')"
      by (subst (asm) makedirs.simps) auto
    then show ?thesis using "1.prems"(2) by (rule mkdir_frame)
  qed
qed

lemma ensure_dir_frame:
  "ensure_dir d disk = (r, disk') \<Longrightarrow> length d < length k \<Longrightarrow> disk' k = disk k"
  by (auto simp: ensure_dir_def dest: makedirs_frame split: if_splits)

lemma stat_upd_other:
  assumes "length q < length k"
  shows "stat (disk(k \<mapsto> v)) q = stat disk q"
proof -
  from assms length_resolve [of q] have "resolve q \<noteq> k" by auto
  then show ?thesis by (simp add: stat_def)
qed

lemma parent_error_existing:
  assumes "stat disk (os_path_dirname p) = Some Dir" and "p \<noteq> []" and "last p \<noteq> sep"
  shows "parent_error disk p = None"
  using assms by (simp add: parent_error_def resolve_id Let_def)

lemma os_rename_error: "os_rename src dst disk = (Inl e, disk') \<Longrightarrow> disk' = disk"
  by (auto simp: os_rename_def split: option.splits node.splits if_splits)

lemma os_rename_success:
  assumes "os_rename src dst disk = (Inr u, disk')"
  shows "\<exists>c. stat disk src = Some (File c) \<and> disk' = (disk(src := None))(dst \<mapsto> File c)
           \<and> dst \<noteq> [] \<and> last dst \<noteq> sep"
  using assms
  by (auto simp: os_rename_def split: option.splits node.splits if_splits)

lemma open_wb_error: "open_wb p disk = (Inl e, disk') \<Longrightarrow> disk' = disk"
  by (auto simp: open_wb_def split: option.splits if_splits)

lemma open_wb_success: "open_wb p disk = (Inr u, disk') \<Longrightarrow> disk' = disk(p \<mapsto> File []) \<and> p \<noteq> [] \<and> last p \<noteq> sep"
  by (auto simp: open_wb_def split: option.splits if_splits)

lemma mkdir_preserves:
  "mkdir name disk = (r, disk') \<Longrightarrow> disk k = Some v \<Longrightarrow> disk' k = Some v"
  by (auto simp: mkdir_def split: if_splits option.splits)

lemma makedirs_preserves:
  "makedirs name disk = (r, disk') \<Longrightarrow> disk k = Some v \<Longrightarrow> disk' k = Some v"
proof (induction name disk arbitrary: r disk' rule: makedirs.induct)
  case (1 name disk)
  show ?case
  proof (cases "fst (makedirs_split name) \<noteq> [] \<and> snd (makedirs_split name) \<noteq> []
         \<and> \<not> os_path_exists disk (fst (makedirs_split name))")
    case True
    obtain r1 d1 where rec: "makedirs (fst (makedirs_split name)) disk = (r1, d1)"
      by (cases "makedirs (fst (makedirs_split name)) disk")
    with "1.IH" True "1.prems"(2) have d1: "d1 k = Some v" by blast
    from "1.prems"(1) True rec
    have "(r, disk') = (r1, d1) \<or> (r, disk') = (Inr (), d1) \<or> mkdir name d1 = (r, disk')"
      by (subst (asm) makedirs.simps) (auto split: sum.splits if_splits)
    with d1 show ?thesis
      by (auto dest: mkdir_preserves)
  next
    case False
    with "1.prems"(1) have "mkdir name disk = (r, disk')"
      by (subst (asm) makedirs.simps) auto
    then show ?thesis using "1.prems"(2) by (rule mkdir_preserves)
  qed
qed

lemma ensure_dir_preserves:
  "ensure_dir d disk = (r, disk') \<Longrightarrow> disk k = Some v \<Longrightarrow> disk' k = Some v"
  by (auto simp: ensure_dir_def dest: makedirs_preserves split: if_splits)


section \<open>The two copy loops\<close>

text \<open>
  Both loops append every pending byte of the source to the open file, and then either
  stop at the clean end of the stream or raise where it breaks.
\<close>

lemma file_write_File: "disk f = Some (File c) \<Longrightarrow> file_write f b disk = disk(f \<mapsto> File (c @ b))"
  by (simp add: file_write_def)

lemma copy_loop_zero: "copy_loop item 0 f disk = (Inr (), disk)"
  by (subst copy_loop.simps) (simp add: read_def)

lemma copy_loop_result:
  assumes "0 < n" and "disk f = Some (File c)"
  shows "copy_loop item n f disk =
           (if broken item then Inl IOError else Inr (), disk(f \<mapsto> File (c @ pending item)))"
  using assms
proof (induction item n f disk arbitrary: c rule: copy_loop.induct)
  case (1 item buf_size f disk)
  show ?case
  proof (cases "pending item = []")
    case True
    with "1.prems" show ?thesis
      by (subst copy_loop.simps) (auto simp: read_def)
  next
    case False
    define b where "b = take (nat buf_size) (pending item)"
    define item' where "item' = item\<lparr>pending := drop (nat buf_size) (pending item)\<rparr>"
    define disk1 where "disk1 = disk(f \<mapsto> File (c @ b))"
    from False "1.prems"(1) have rd: "read buf_size item = Inr (b, item')" and b: "b \<noteq> []"
      by (simp_all add: read_def b_def item'_def)
    have fw: "file_write f b disk = disk1"
      using "1.prems"(2) by (simp add: file_write_File disk1_def)
    have "disk1 f = Some (File (c @ b))"
      by (simp add: disk1_def)
    with "1.IH" [OF rd refl b "1.prems"(1), of "c @ b"]
    have "copy_loop item' buf_size f disk1 =
            (if broken item' then Inl IOError else Inr (), disk1(f \<mapsto> File ((c @ b) @ pending item')))"
      by (simp only: fw)
    moreover have "broken item' = broken item" and "b @ pending item' = pending item"
      by (simp_all add: item'_def b_def)
    moreover have "disk1(f \<mapsto> File (c @ pending item)) = disk(f \<mapsto> File (c @ pending item))"
      by (simp add: disk1_def)
    ultimately have "copy_loop item' buf_size f disk1 =
            (if broken item then Inl IOError else Inr (), disk(f \<mapsto> File (c @ pending item)))"
      by (simp only: append_assoc)
    then show ?thesis
      using rd b by (subst copy_loop.simps) (simp add: fw)
  qed
qed

lemma drain_result:
  assumes "disk (cache_file w) = Some (File c)"
  shows "drain w disk =
           (if broken (fp w) then Inl IOError else Inr (w\<lparr>fp := (fp w)\<lparr>pending := []\<rparr>\<rparr>),
            disk(cache_file w \<mapsto> File (c @ pending (fp w))))"
  using assms
proof (induction w disk arbitrary: c rule: drain.induct)
  case (1 w disk)
  show ?case
  proof (cases "pending (fp w) = []")
    case True
    with "1.prems" show ?thesis
      by (subst drain.simps) (auto simp: HTTPCacheWrapper_read_def read_def)
  next
    case False
    define b where "b = take 8192 (pending (fp w))"
    define w' where "w' = w\<lparr>fp := (fp w)\<lparr>pending := drop 8192 (pending (fp w))\<rparr>\<rparr>"
    define disk1 where "disk1 = disk(cache_file w \<mapsto> File (c @ b))"
    from False "1.prems" have rd: "HTTPCacheWrapper_read 8192 w disk = (Inr (b, w'), disk1)" and b: "b \<noteq> []"
      by (simp_all add: HTTPCacheWrapper_read_def read_def file_write_File b_def w'_def disk1_def)
    have cf: "cache_file w' = cache_file w"
      by (simp add: w'_def)
    have "disk1 (cache_file w') = Some (File (c @ b))"
      by (simp add: disk1_def cf)
    from "1.IH" [OF rd [symmetric] refl refl b this]
    have "drain w' disk1 =
            (if broken (fp w') then Inl IOError else Inr (w'\<lparr>fp := (fp w')\<lparr>pending := []\<rparr>\<rparr>),
             disk1(cache_file w' \<mapsto> File ((c @ b) @ pending (fp w'))))" .
    moreover have "broken (fp w') = broken (fp w)" and "b @ pending (fp w') = pending (fp w)"
      and "w'\<lparr>fp := (fp w')\<lparr>pending := []\<rparr>\<rparr> = w\<lparr>fp := (fp w)\<lparr>pending := []\<rparr>\<rparr>"
      by (simp_all add: w'_def b_def)
    moreover have "disk1(cache_file w \<mapsto> File (c @ pending (fp w))) =
                   disk(cache_file w \<mapsto> File (c @ pending (fp w)))"
      by (simp add: disk1_def)
    ultimately have "drain w' disk1 =
            (if broken (fp w) then Inl IOError else Inr (w\<lparr>fp := (fp w)\<lparr>pending := []\<rparr>\<rparr>),
             disk(cache_file w \<mapsto> File (c @ pending (fp w))))"
      by (simp only: append_assoc cf)
    then show ?thesis
      using rd b by (subst drain.simps) simp
  qed
qed

section \<open>The atomic cache writer\<close>

text \<open>
  \<open>save_item\<close> ends in one of three ways: the wrapper cannot be set up; the source
  breaks while it is drained, and the bytes read so far stay in the staging file; or the
  source is drained and the staging file is renamed onto the target.
\<close>

lemma HTTPCacheWrapper_init_success:
  assumes "HTTPCacheWrapper_init item p disk = (Inr w, disk')"
  shows "\<exists>disk1. ensure_dir (os_path_dirname p) disk = (Inr (), disk1)
           \<and> disk' = disk1(p @ ''.keg_temp'' \<mapsto> File [])
           \<and> w = \<lparr>fp = item, real_path = p, temp_path = p @ ''.keg_temp'',
                   cache_file = p @ ''.keg_temp''\<rparr>"
  using assms
  by (auto simp: HTTPCacheWrapper_init_def split: prod.splits sum.splits dest: open_wb_success)

lemma HTTPCacheWrapper_init_error:
  assumes "HTTPCacheWrapper_init item p disk = (Inl e, disk')"
  shows "\<exists>r. ensure_dir (os_path_dirname p) disk = (r, disk')"
  using assms
  by (auto simp: HTTPCacheWrapper_init_def split: prod.splits sum.splits dest: open_wb_error)

lemma HTTPCacheWrapper_close_result:
  assumes "disk (cache_file w) = Some (File c)"
  shows "HTTPCacheWrapper_close w disk =
           (if broken (fp w) then (Inl IOError, disk(cache_file w \<mapsto> File (c @ pending (fp w))))
            else os_rename (temp_path w) (real_path w)
                   (disk(cache_file w \<mapsto> File (c @ pending (fp w)))))"
  using assms by (simp add: HTTPCacheWrapper_close_def drain_result [where c = c])

lemma save_item_unfold:
  "save_item cdn item p disk =
     (case HTTPCacheWrapper_init item (get_full_path cdn p) disk of
        (Inl e, disk1) \<Rightarrow> (Inl e, disk1)
      | (Inr f, disk1) \<Rightarrow> HTTPCacheWrapper_close f disk1)"
  by (simp add: save_item_def)

lemma save_item_cases:
  obtains (init_failed) e disk1 r where
      "ensure_dir (os_path_dirname (get_full_path cdn p)) disk = (r, disk1)"
      "save_item cdn item p disk = (Inl e, disk1)"
  | (read_failed) disk1 where
      "ensure_dir (os_path_dirname (get_full_path cdn p)) disk = (Inr (), disk1)"
      "broken item"
      "save_item cdn item p disk =
         (Inl IOError, disk1(get_full_path cdn p @ ''.keg_temp'' \<mapsto> File (pending item)))"
  | (drained) disk1 where
      "ensure_dir (os_path_dirname (get_full_path cdn p)) disk = (Inr (), disk1)"
      "\<not> broken item"
      "save_item cdn item p disk =
         os_rename (get_full_path cdn p @ ''.keg_temp'') (get_full_path cdn p)
           (disk1(get_full_path cdn p @ ''.keg_temp'' \<mapsto> File (pending item)))"
proof -
  define T where "T = get_full_path cdn p"
  obtain r0 d0 where init: "HTTPCacheWrapper_init item T disk = (r0, d0)"
    by (cases "HTTPCacheWrapper_init item T disk")
  show thesis
  proof (cases r0)
    case (Inl e)
    with init HTTPCacheWrapper_init_error [of item T disk e d0]
    obtain r where "ensure_dir (os_path_dirname T) disk = (r, d0)" by auto
    moreover from init Inl have "save_item cdn item p disk = (Inl e, d0)"
      by (simp add: save_item_unfold T_def)
    ultimately show thesis
      using init_failed by (simp add: T_def)
  next
    case (Inr w)
    with init HTTPCacheWrapper_init_success [of item T disk w d0]
    obtain disk1 where e: "ensure_dir (os_path_dirname T) disk = (Inr (), disk1)"
      and d0: "d0 = disk1(T @ ''.keg_temp'' \<mapsto> File [])"
      and w: "w = \<lparr>fp = item, real_path = T, temp_path = T @ ''.keg_temp'',
                   cache_file = T @ ''.keg_temp''\<rparr>"
      by auto
    have "d0 (cache_file w) = Some (File [])"
      by (simp add: d0 w)
    with HTTPCacheWrapper_close_result [where w = w and disk = d0 and c = "[]"]
    have close: "HTTPCacheWrapper_close w d0 =
           (if broken item
            then (Inl IOError, disk1(T @ ''.keg_temp'' \<mapsto> File (pending item)))
            else os_rename (T @ ''.keg_temp'') T (disk1(T @ ''.keg_temp'' \<mapsto> File (pending item))))"
      by (simp add: w d0)
    from init Inr have s: "save_item cdn item p disk = HTTPCacheWrapper_close w d0"
      by (simp add: save_item_unfold T_def)
    show thesis
    proof (cases "broken item")
      case True
      with s close e show thesis using read_failed by (simp add: T_def)
    next
      case False
      with s close e show thesis using drained by (simp add: T_def)
    qed
  qed
qed

lemma save_item_error_keeps_target:
  assumes "save_item cdn item p disk = (Inl e, disk')"
  shows "file_content disk' (get_full_path cdn p) = file_content disk (get_full_path cdn p)"
proof (cases "get_full_path cdn p = [] \<or> last (get_full_path cdn p) = sep")
  case True
  then show ?thesis by (simp add: file_content_no_file)
next
  case False
  define T where "T = get_full_path cdn p"
  from False have T: "T \<noteq> []" "last T \<noteq> sep" by (simp_all add: T_def)
  then have len: "length (os_path_dirname T) < length T"
    by (rule length_os_path_dirname)
  have "disk' T = disk T"
  proof (cases rule: save_item_cases [of cdn p disk item])
    case (init_failed e1 disk1 r)
    with assms have "disk' = disk1" by simp
    with init_failed(1) len show ?thesis
      by (auto simp: T_def dest: ensure_dir_frame)
  next
    case (read_failed disk1)
    with assms have "disk' = disk1(T @ ''.keg_temp'' \<mapsto> File (pending item))"
      by (simp add: T_def)
    moreover from read_failed(1) len have "disk1 T = disk T"
      by (auto simp: T_def dest: ensure_dir_frame)
    ultimately show ?thesis by simp
  next
    case (drained disk1)
    with assms have "disk' = disk1(T @ ''.keg_temp'' \<mapsto> File (pending item))"
      by (auto simp: T_def dest: os_rename_error)
    moreover from drained(1) len have "disk1 T = disk T"
      by (auto simp: T_def dest: ensure_dir_frame)
    ultimately show ?thesis by simp
  qed
  with T show ?thesis
    by (simp add: file_content_plain T_def [symmetric])
qed

lemma save_item_broken_fails:
  assumes "broken item"
  shows "\<exists>e. fst (save_item cdn item p disk) = Inl e"
  by (cases rule: save_item_cases [of cdn p disk item]) (use assms in auto)


lemma save_item_succeeds:
  assumes "\<not> broken item"
    and "get_full_path cdn p \<noteq> []" and "last (get_full_path cdn p) \<noteq> sep"
    and "stat disk (os_path_dirname (get_full_path cdn p)) = Some Dir"
    and "disk (get_full_path cdn p) \<noteq> Some Dir"
    and "disk (get_full_path cdn p @ ''.keg_temp'') \<noteq> Some Dir"
  shows "\<exists>disk'. save_item cdn item p disk = (Inr (), disk')"
proof -
  define T where "T = get_full_path cdn p"
  define kt where "kt = T @ ''.keg_temp''"
  define disk3 where "disk3 = disk(kt \<mapsto> File (pending item))"
  note a = assms [folded T_def] 
  have kt: "kt \<noteq> []" "last kt \<noteq> sep" by (simp_all add: kt_def sep_def)
  have dn: "os_path_dirname kt = os_path_dirname T"
    unfolding kt_def by (rule os_path_dirname_append) (simp add: sep_def)
  have e: "ensure_dir (os_path_dirname T) disk = (Inr (), disk)"
    using a(4) by (simp add: ensure_dir_def os_path_exists_def)
  have "parent_error disk kt = None"
    using a(4) kt by (intro parent_error_existing) (simp_all add: dn)
  with kt a(6) have o: "open_wb kt disk = (Inr (), disk(kt \<mapsto> File []))"
    by (simp add: open_wb_def kt_def)
  define w where "w = \<lparr>fp = item, real_path = T, temp_path = kt, cache_file = kt\<rparr>"
  from e o have init: "HTTPCacheWrapper_init item T disk = (Inr w, disk(kt \<mapsto> File []))"
    by (simp add: HTTPCacheWrapper_init_def w_def kt_def)
  have "(disk(kt \<mapsto> File [])) (cache_file w) = Some (File [])"
    by (simp add: w_def)
  with HTTPCacheWrapper_close_result [where w = w and disk = "disk(kt \<mapsto> File [])" and c = "[]"] a(1)
  have close: "HTTPCacheWrapper_close w (disk(kt \<mapsto> File [])) = os_rename kt T disk3"
    by (simp add: w_def disk3_def)
  have s: "stat disk3 kt = Some (File (pending item))"
    using kt by (simp add: stat_plain disk3_def)
  have neq: "T \<noteq> kt" by (simp add: kt_def)
  have "length (os_path_dirname T) < length kt"
    using length_os_path_dirname [OF a(2,3)] by (simp add: kt_def)
  then have "stat disk3 (os_path_dirname T) = Some Dir"
    using a(4) by (simp add: disk3_def stat_upd_other)
  with a(2,3) have pe: "parent_error disk3 T = None"
    by (intro parent_error_existing)
  from neq a(5) have "disk3 T \<noteq> Some Dir"
    by (simp add: disk3_def)
  with s pe a(2,3) have "os_rename kt T disk3 = (Inr (), (disk3(kt := None))(T \<mapsto> File (pending item)))"
    by (simp add: os_rename_def)
  with init close show ?thesis
    by (simp add: save_item_def T_def [symmetric])
qed

text \<open>
  C2 as stated: two writers created for the same target open distinct staging paths.
  The staging path is the target path followed by the fixed suffix \<open>.keg_temp\<close>: a
  second writer created for \<open>cache/ab\<close> after a first one gets the very same staging
  path \<open>cache/ab.keg_temp\<close>.
\<close>

theorem staging_path_shared_counterexample:
  "fst (HTTPCacheWrapper_init \<lparr>pending = [1], broken = False\<rparr> ''cache/ab'' Map.empty)
     = Inr \<lparr>fp = \<lparr>pending = [1], broken = False\<rparr>, real_path = ''cache/ab'',
            temp_path = ''cache/ab.keg_temp'', cache_file = ''cache/ab.keg_temp''\<rparr>
   \<and> fst (HTTPCacheWrapper_init \<lparr>pending = [2], broken = False\<rparr> ''cache/ab''
          (snd (HTTPCacheWrapper_init \<lparr>pending = [1], broken = False\<rparr> ''cache/ab'' Map.empty)))
     = Inr \<lparr>fp = \<lparr>pending = [2], broken = False\<rparr>, real_path = ''cache/ab'',
            temp_path = ''cache/ab.keg_temp'', cache_file = ''cache/ab.keg_temp''\<rparr>"
  by code_simp

text \<open>
  C2, amended: the staging path of a writer is its target path followed by
  \<open>.keg_temp\<close>. It differs from the target, and two writers have the same staging path
  exactly when they have the same target.
\<close>

theorem staging_path_fixed_suffix:
  assumes "HTTPCacheWrapper_init item p disk = (Inr w, disk1)"
    and "HTTPCacheWrapper_init item' p' disk' = (Inr w', disk1')"
  shows "temp_path w = p @ ''.keg_temp'' \<and> temp_path w \<noteq> real_path w
         \<and> (temp_path w = temp_path w' \<longleftrightarrow> p = p')"
  using HTTPCacheWrapper_init_success [OF assms(1)] HTTPCacheWrapper_init_success [OF assms(2)]
  by auto

theorem staging_path_fixed_suffix_witness:
  "fst (HTTPCacheWrapper_init \<lparr>pending = [1], broken = False\<rparr> ''cache/ab'' Map.empty)
     = Inr \<lparr>fp = \<lparr>pending = [1], broken = False\<rparr>, real_path = ''cache/ab'',
            temp_path = ''cache/ab.keg_temp'', cache_file = ''cache/ab.keg_temp''\<rparr>
   \<and> fst (HTTPCacheWrapper_init \<lparr>pending = [2], broken = False\<rparr> ''cache/cd'' Map.empty)
     = Inr \<lparr>fp = \<lparr>pending = [2], broken = False\<rparr>, real_path = ''cache/cd'',
            temp_path = ''cache/cd.keg_temp'', cache_file = ''cache/cd.keg_temp''\<rparr>
   \<and> ''cache/ab.keg_temp'' \<noteq> ''cache/cd.keg_temp''"
proof -
  let ?w1 = "\<lparr>fp = \<lparr>pending = [1], broken = False\<rparr>, real_path = ''cache/ab'',
            temp_path = ''cache/ab.keg_temp'', cache_file = ''cache/ab.keg_temp''\<rparr>"
  let ?w2 = "\<lparr>fp = \<lparr>pending = [2], broken = False\<rparr>, real_path = ''cache/cd'',
            temp_path = ''cache/cd.keg_temp'', cache_file = ''cache/cd.keg_temp''\<rparr>"
  have f1: "fst (HTTPCacheWrapper_init \<lparr>pending = [1], broken = False\<rparr> ''cache/ab'' Map.empty) = Inr ?w1"
    by code_simp
  have f2: "fst (HTTPCacheWrapper_init \<lparr>pending = [2], broken = False\<rparr> ''cache/cd'' Map.empty) = Inr ?w2"
    by code_simp
  from f1 have h1: "HTTPCacheWrapper_init \<lparr>pending = [1], broken = False\<rparr> ''cache/ab'' Map.empty
      = (Inr ?w1, snd (HTTPCacheWrapper_init \<lparr>pending = [1], broken = False\<rparr> ''cache/ab'' Map.empty))"
    by (simp add: prod_eq_iff)
  from f2 have h2: "HTTPCacheWrapper_init \<lparr>pending = [2], broken = False\<rparr> ''cache/cd'' Map.empty
      = (Inr ?w2, snd (HTTPCacheWrapper_init \<lparr>pending = [2], broken = False\<rparr> ''cache/cd'' Map.empty))"
    by (simp add: prod_eq_iff)
  from staging_path_fixed_suffix [OF h1 h2] f1 f2 show ?thesis
    by simp
qed

text \<open>
  C6: when the source breaks while \<open>save_item\<close> drains it, \<open>save_item\<close> raises, and what
  a reader finds at the target path afterwards is what was there before: the same bytes,
  or no file. The rename is not reached.
\<close>

theorem save_item_failure_keeps_target:
  assumes "broken item"
  shows "(\<exists>e. fst (save_item cdn item p disk) = Inl e)
         \<and> file_content (snd (save_item cdn item p disk)) (get_full_path cdn p)
             = file_content disk (get_full_path cdn p)"
proof -
  from save_item_broken_fails [OF assms] obtain e
    where "fst (save_item cdn item p disk) = Inl e" by blast
  then have "save_item cdn item p disk = (Inl e, snd (save_item cdn item p disk))"
    by (simp add: prod_eq_iff)
  from save_item_error_keeps_target [OF this] \<open>fst (save_item cdn item p disk) = Inl e\<close>
  show ?thesis by blast
qed

theorem save_item_failure_keeps_target_witness:
  "(\<exists>e. fst (save_item
        \<lparr>base_dir = ''cache'', fragments_dir = ''frag'', armadillo_dir = ''arm'', temp_dir = ''tmp''\<rparr>
        \<lparr>pending = [1, 2, 3], broken = True\<rparr> ''/f''
        [''cache'' \<mapsto> Dir, ''cache/f'' \<mapsto> File [9]]) = Inl e)
   \<and> file_content (snd (save_item
        \<lparr>base_dir = ''cache'', fragments_dir = ''frag'', armadillo_dir = ''arm'', temp_dir = ''tmp''\<rparr>
        \<lparr>pending = [1, 2, 3], broken = True\<rparr> ''/f''
        [''cache'' \<mapsto> Dir, ''cache/f'' \<mapsto> File [9]])) ''cache/f'' = Some [9]"
proof -
  let ?cdn = "\<lparr>base_dir = ''cache'', fragments_dir = ''frag'', armadillo_dir = ''arm'', temp_dir = ''tmp''\<rparr>"
  have a: "get_full_path ?cdn ''/f'' = ''cache/f''"
    by code_simp
  have b: "file_content [''cache'' \<mapsto> Dir, ''cache/f'' \<mapsto> File [9]] ''cache/f'' = Some [9]"
    by code_simp
  have c: "broken \<lparr>pending = [1, 2, 3], broken = True\<rparr>"
    by simp
  from save_item_failure_keeps_target [OF c, of ?cdn "''/f''" "[''cache'' \<mapsto> Dir, ''cache/f'' \<mapsto> File [9]]"]
  show ?thesis
    by (simp only: a b)
qed

text \<open>
  C7: once \<open>save_item\<close> has stored a stream under a logical path, \<open>get_item\<close> for that
  path opens a stream of exactly the bytes the source held, and reading it to the end
  returns them. (\<open>save_item_succeeds\<close> gives conditions under which \<open>save_item\<close> does
  return.)
\<close>

theorem save_item_roundtrip:
  assumes "save_item cdn item p disk = (Inr u, disk')"
  shows "get_item cdn p disk' = Inr \<lparr>pending = pending item, broken = False\<rparr>
         \<and> read_item (\<lambda>q. get_item cdn q disk') p = Inr (pending item)"
proof -
  define T where "T = get_full_path cdn p"
  define kt where "kt = T @ ''.keg_temp''"
  have kt: "kt \<noteq> []" "last kt \<noteq> sep" by (simp_all add: kt_def sep_def)
  show ?thesis
  proof (cases rule: save_item_cases [of cdn p disk item])
    case (init_failed e1 disk1 r)
    with assms show ?thesis by simp
  next
    case (read_failed disk1)
    with assms show ?thesis by simp
  next
    case (drained disk1)
    with assms have rn: "os_rename kt T (disk1(kt \<mapsto> File (pending item))) = (Inr u, disk')"
      by (simp add: T_def kt_def)
    from os_rename_success [OF rn] obtain c
      where c: "stat (disk1(kt \<mapsto> File (pending item))) kt = Some (File c)"
        and d': "disk' = ((disk1(kt \<mapsto> File (pending item)))(kt := None))(T \<mapsto> File c)"
        and T: "T \<noteq> []" "last T \<noteq> sep"
      by blast
    from c kt have "c = pending item"
      by (simp add: stat_plain)
    with d' have "disk' T = Some (File (pending item))" by simp
    with T have "get_item cdn p disk' = Inr \<lparr>pending = pending item, broken = False\<rparr>"
      by (simp add: get_item_def open_rb_def stat_plain T_def [symmetric])
    then show ?thesis
      by (simp add: read_item_def read_def)
  qed
qed

theorem save_item_roundtrip_witness:
  "fst (save_item
        \<lparr>base_dir = ''cache'', fragments_dir = ''frag'', armadillo_dir = ''arm'', temp_dir = ''tmp''\<rparr>
        \<lparr>pending = [1, 2, 3], broken = False\<rparr> ''/data/ab/cd/abcdef'' Map.empty) = Inr ()
   \<and> get_item
        \<lparr>base_dir = ''cache'', fragments_dir = ''frag'', armadillo_dir = ''arm'', temp_dir = ''tmp''\<rparr>
        ''/data/ab/cd/abcdef''
        (snd (save_item
          \<lparr>base_dir = ''cache'', fragments_dir = ''frag'', armadillo_dir = ''arm'', temp_dir = ''tmp''\<rparr>
          \<lparr>pending = [1, 2, 3], broken = False\<rparr> ''/data/ab/cd/abcdef'' Map.empty))
       = Inr \<lparr>pending = [1, 2, 3], broken = False\<rparr>"
proof -
  let ?cdn = "\<lparr>base_dir = ''cache'', fragments_dir = ''frag'', armadillo_dir = ''arm'', temp_dir = ''tmp''\<rparr>"
  let ?item = "\<lparr>pending = [1, 2, 3], broken = False\<rparr>"
  have f: "fst (save_item ?cdn ?item ''/data/ab/cd/abcdef'' Map.empty) = Inr ()"
    by code_simp
  then have h: "save_item ?cdn ?item ''/data/ab/cd/abcdef'' Map.empty
      = (Inr (), snd (save_item ?cdn ?item ''/data/ab/cd/abcdef'' Map.empty))"
    by (simp add: prod_eq_iff)
  from save_item_roundtrip [OF h] f show ?thesis
    by simp
qed

section \<open>Writing to the temporary store and to the encrypted objects\<close>

lemma write_temp_file_opened:
  assumes "ensure_dir (temp_dir cdn) disk = (Inr (), disk1)"
    and "open_wb (os_path_join (temp_dir cdn) [uuid]) disk1 = (Inr (), disk2)"
  shows "write_temp_file cdn item buf_size uuid disk =
           (if buf_size < 0 then
              (case read (- 1) item of
                 Inl e \<Rightarrow> (Inl e, disk2)
               | Inr (b, _) \<Rightarrow> (Inr (os_path_join (temp_dir cdn) [uuid]),
                                file_write (os_path_join (temp_dir cdn) [uuid]) b disk2))
            else
              (case copy_loop item buf_size (os_path_join (temp_dir cdn) [uuid]) disk2 of
                 (Inl e, disk3) \<Rightarrow> (Inl e, disk3)
               | (Inr _, disk3) \<Rightarrow> (Inr (os_path_join (temp_dir cdn) [uuid]), disk3)))"
  using assms by (simp add: write_temp_file_def Let_def)

lemma write_temp_file_success:
  assumes "write_temp_file cdn item buf_size uuid disk = (Inr tp, disk')"
  shows "tp = os_path_join (temp_dir cdn) [uuid] \<and> tp \<noteq> [] \<and> last tp \<noteq> sep
         \<and> disk' tp = Some (File (if buf_size = 0 then [] else pending item))"
proof -
  define t where "t = os_path_join (temp_dir cdn) [uuid]"
  obtain r1 disk1 where e: "ensure_dir (temp_dir cdn) disk = (r1, disk1)"
    by (cases "ensure_dir (temp_dir cdn) disk")
  obtain r2 disk2 where o: "open_wb t disk1 = (r2, disk2)"
    by (cases "open_wb t disk1")
  from assms e o have r1: "r1 = Inr ()" and r2: "r2 = Inr ()"
    by (auto simp: write_temp_file_def Let_def t_def split: sum.splits)
  from o r2 open_wb_success [of t disk1 "()" disk2]
  have d2: "disk2 = disk1(t \<mapsto> File [])" and t: "t \<noteq> []" "last t \<noteq> sep"
    by auto
  have d2t: "disk2 t = Some (File [])" by (simp add: d2)
  have w: "write_temp_file cdn item buf_size uuid disk =
           (if buf_size < 0 then
              (case read (- 1) item of
                 Inl e \<Rightarrow> (Inl e, disk2)
               | Inr (b, _) \<Rightarrow> (Inr t, file_write t b disk2))
            else
              (case copy_loop item buf_size t disk2 of
                 (Inl e, disk3) \<Rightarrow> (Inl e, disk3)
               | (Inr _, disk3) \<Rightarrow> (Inr t, disk3)))"
    using e o r1 r2 unfolding t_def by (simp add: write_temp_file_opened)
  consider "buf_size < 0" | "buf_size = 0" | "0 < buf_size" by linarith
  then have "tp = t \<and> disk' t = Some (File (if buf_size = 0 then [] else pending item))"
  proof cases
    case 1
    with assms w d2t show ?thesis
      by (auto simp: read_def file_write_File split: if_splits)
  next
    case 2
    with assms w d2t show ?thesis
      by (auto simp: copy_loop_zero)
  next
    case 3
    with copy_loop_result [where n = buf_size and disk = disk2 and f = t and c = "[]" and item = item]
      d2t
    have "copy_loop item buf_size t disk2 =
            (if broken item then Inl IOError else Inr (), disk2(t \<mapsto> File (pending item)))"
      by simp
    with assms w 3 show ?thesis
      by (auto split: if_splits)
  qed
  with t show ?thesis by (simp add: t_def)
qed

text \<open>
  C9: once the temporary file is open, \<open>write_temp_file\<close> with \<open>buf_size = 0\<close> returns
  its path and leaves it empty whatever the source holds, since the first \<open>read(0)\<close> of
  the loop is empty (\<open>copy_loop_zero\<close>); with a negative \<open>buf_size\<close> and with a positive
  one the file receives every byte of a source that does not break.
\<close>

theorem write_temp_file_buf_size:
  assumes "ensure_dir (temp_dir cdn) disk = (Inr (), disk1)"
    and "open_wb (os_path_join (temp_dir cdn) [uuid]) disk1 = (Inr (), disk2)"
  shows "write_temp_file cdn item 0 uuid disk = (Inr (os_path_join (temp_dir cdn) [uuid]), disk2)
         \<and> disk2 (os_path_join (temp_dir cdn) [uuid]) = Some (File [])
         \<and> (buf_size < 0 \<and> \<not> broken item \<longrightarrow>
              write_temp_file cdn item buf_size uuid disk =
                (Inr (os_path_join (temp_dir cdn) [uuid]),
                 disk2(os_path_join (temp_dir cdn) [uuid] \<mapsto> File (pending item))))
         \<and> (0 < buf_size \<and> \<not> broken item \<longrightarrow>
              write_temp_file cdn item buf_size uuid disk =
                (Inr (os_path_join (temp_dir cdn) [uuid]),
                 disk2(os_path_join (temp_dir cdn) [uuid] \<mapsto> File (pending item))))"
proof -
  define tp where "tp = os_path_join (temp_dir cdn) [uuid]"
  from open_wb_success [OF assms(2)] have d2: "disk2 tp = Some (File [])"
    by (simp add: tp_def)
  have zero: "write_temp_file cdn item 0 uuid disk = (Inr tp, disk2)"
    by (simp add: write_temp_file_opened [OF assms] copy_loop_zero tp_def)
  have other: "write_temp_file cdn item buf_size uuid disk = (Inr tp, disk2(tp \<mapsto> File (pending item)))"
    if "buf_size \<noteq> 0" and "\<not> broken item" for buf_size
  proof (cases "buf_size < 0")
    case True
    with that(2) d2 show ?thesis
      by (simp add: write_temp_file_opened [OF assms] read_def file_write_File tp_def [symmetric])
  next
    case False
    with that(1) have "0 < buf_size" by simp
    with copy_loop_result [where n = buf_size and disk = disk2 and f = tp and c = "[]" and item = item]
      d2 that(2) False show ?thesis
      by (simp add: write_temp_file_opened [OF assms] tp_def [symmetric])
  qed
  from zero d2 other [of buf_size] show ?thesis
    by (auto simp: tp_def)
qed

theorem write_temp_file_buf_size_witness:
  "fst (ensure_dir ''tmp'' Map.empty) = Inr ()
   \<and> fst (open_wb ''tmp/u-1'' (snd (ensure_dir ''tmp'' Map.empty))) = Inr ()
   \<and> write_temp_file
        \<lparr>base_dir = ''cache'', fragments_dir = ''frag'', armadillo_dir = ''arm'', temp_dir = ''tmp''\<rparr>
        \<lparr>pending = [1, 2, 3], broken = False\<rparr> 0 ''u-1'' Map.empty
       = (Inr ''tmp/u-1'', snd (open_wb ''tmp/u-1'' (snd (ensure_dir ''tmp'' Map.empty))))
   \<and> snd (open_wb ''tmp/u-1'' (snd (ensure_dir ''tmp'' Map.empty))) ''tmp/u-1'' = Some (File [])
   \<and> write_temp_file
        \<lparr>base_dir = ''cache'', fragments_dir = ''frag'', armadillo_dir = ''arm'', temp_dir = ''tmp''\<rparr>
        \<lparr>pending = [1, 2, 3], broken = False\<rparr> 2 ''u-1'' Map.empty
       = (Inr ''tmp/u-1'',
          (snd (open_wb ''tmp/u-1'' (snd (ensure_dir ''tmp'' Map.empty))))(''tmp/u-1'' \<mapsto> File [1, 2, 3]))"
proof -
  let ?cdn = "\<lparr>base_dir = ''cache'', fragments_dir = ''frag'', armadillo_dir = ''arm'', temp_dir = ''tmp''\<rparr>"
  let ?item = "\<lparr>pending = [1, 2, 3], broken = False\<rparr>"
  have tp: "os_path_join ''tmp'' [''u-1''] = ''tmp/u-1''"
    by code_simp
  have f1: "fst (ensure_dir ''tmp'' Map.empty) = Inr ()"
    by code_simp
  have f2: "fst (open_wb ''tmp/u-1'' (snd (ensure_dir ''tmp'' Map.empty))) = Inr ()"
    by code_simp
  from f1 have h1: "ensure_dir (temp_dir ?cdn) Map.empty = (Inr (), snd (ensure_dir ''tmp'' Map.empty))"
    by (simp add: prod_eq_iff)
  from f2 have h2: "open_wb (os_path_join (temp_dir ?cdn) [''u-1'']) (snd (ensure_dir ''tmp'' Map.empty))
      = (Inr (), snd (open_wb ''tmp/u-1'' (snd (ensure_dir ''tmp'' Map.empty))))"
    by (simp add: prod_eq_iff tp)
  from write_temp_file_buf_size [OF h1 h2, of ?item 2] f1 f2 show ?thesis
    by (simp add: tp)
qed

text \<open>
  C3 as stated: \<open>write_encrypted_file\<close> places the file at the partitioned object path
  below \<open>objects\<close>. For the object path \<open>abcdef\<close>, whose partition is \<open>ab/cd/abcdef\<close>,
  the write succeeds and there is no file at \<open>arm/objects/ab/cd/abcdef\<close>.
\<close>

theorem write_encrypted_file_partition_counterexample:
  "partition_hash ''abcdef'' = Inr ''ab/cd/abcdef''
   \<and> fst (write_encrypted_file
        \<lparr>base_dir = ''cache'', fragments_dir = ''frag'', armadillo_dir = ''arm'', temp_dir = ''tmp''\<rparr>
        \<lparr>pending = [1, 2, 3], broken = False\<rparr> ''abcdef'' (- 1) ''u-1'' Map.empty) = Inr ()
   \<and> file_content (snd (write_encrypted_file
        \<lparr>base_dir = ''cache'', fragments_dir = ''frag'', armadillo_dir = ''arm'', temp_dir = ''tmp''\<rparr>
        \<lparr>pending = [1, 2, 3], broken = False\<rparr> ''abcdef'' (- 1) ''u-1'' Map.empty))
        ''arm/objects/ab/cd/abcdef'' = None"
  by code_simp

text \<open>
  C3, amended: \<open>write_encrypted_file\<close> places the file at the object path itself, minus
  its leading separators, below \<open>objects\<close> in the armadillo directory; no partition
  function is applied. \<open>has_encrypted_file\<close> tests that same location, and holds after
  the write.
\<close>

theorem write_encrypted_file_location:
  assumes "write_encrypted_file cdn item p buf_size uuid disk = (Inr u, disk')"
  shows "file_content disk'
           (os_path_join (os_path_join (armadillo_dir cdn) [''objects'']) [lstrip_sep p])
           = Some (if buf_size = 0 then [] else pending item)
         \<and> has_encrypted_file cdn p disk'"
proof -
  define crypt where "crypt = get_encrypted_path cdn p"
  define content where "content = (if buf_size = 0 then [] else pending item)"
  obtain r1 disk1 where wt: "write_temp_file cdn item buf_size uuid disk = (r1, disk1)"
    by (cases "write_temp_file cdn item buf_size uuid disk")
  with assms obtain tp where r1: "r1 = Inr tp"
    by (cases r1) (auto simp: write_encrypted_file_def)
  from write_temp_file_success [OF wt [unfolded r1]]
  have tp: "tp \<noteq> []" "last tp \<noteq> sep" and d1: "disk1 tp = Some (File content)"
    unfolding content_def by blast+
  obtain r2 disk2 where e: "ensure_dir (os_path_dirname crypt) disk1 = (r2, disk2)"
    by (cases "ensure_dir (os_path_dirname crypt) disk1")
  from assms wt r1 e have rn: "os_rename tp crypt disk2 = (Inr u, disk')"
    by (auto simp: write_encrypted_file_def Let_def crypt_def split: sum.splits)
  from ensure_dir_preserves [OF e d1] tp have "stat disk2 tp = Some (File content)"
    by (simp add: stat_plain)
  with os_rename_success [OF rn]
  have "disk' crypt = Some (File content)" and c: "crypt \<noteq> []" "last crypt \<noteq> sep"
    by auto
  with c have "file_content disk' crypt = Some content" and "os_path_exists disk' crypt"
    by (simp_all add: file_content_plain os_path_exists_def stat_plain)
  then show ?thesis
    by (simp add: has_encrypted_file_def crypt_def get_encrypted_path_def armadillo_objects_dir_def
        content_def)
qed

theorem write_encrypted_file_location_witness:
  "fst (write_encrypted_file
        \<lparr>base_dir = ''cache'', fragments_dir = ''frag'', armadillo_dir = ''arm'', temp_dir = ''tmp''\<rparr>
        \<lparr>pending = [1, 2, 3], broken = False\<rparr> ''/abcdef'' (- 1) ''u-1'' Map.empty) = Inr ()
   \<and> file_content (snd (write_encrypted_file
        \<lparr>base_dir = ''cache'', fragments_dir = ''frag'', armadillo_dir = ''arm'', temp_dir = ''tmp''\<rparr>
        \<lparr>pending = [1, 2, 3], broken = False\<rparr> ''/abcdef'' (- 1) ''u-1'' Map.empty))
        ''arm/objects/abcdef'' = Some [1, 2, 3]
   \<and> has_encrypted_file
        \<lparr>base_dir = ''cache'', fragments_dir = ''frag'', armadillo_dir = ''arm'', temp_dir = ''tmp''\<rparr>
        ''/abcdef''
        (snd (write_encrypted_file
          \<lparr>base_dir = ''cache'', fragments_dir = ''frag'', armadillo_dir = ''arm'', temp_dir = ''tmp''\<rparr>
          \<lparr>pending = [1, 2, 3], broken = False\<rparr> ''/abcdef'' (- 1) ''u-1'' Map.empty))"
proof -
  let ?cdn = "\<lparr>base_dir = ''cache'', fragments_dir = ''frag'', armadillo_dir = ''arm'', temp_dir = ''tmp''\<rparr>"
  let ?item = "\<lparr>pending = [1, 2, 3], broken = False\<rparr>"
  have loc: "os_path_join (os_path_join ''arm'' [''objects'']) [lstrip_sep ''/abcdef'']
      = ''arm/objects/abcdef''"
    by code_simp
  have f: "fst (write_encrypted_file ?cdn ?item ''/abcdef'' (- 1) ''u-1'' Map.empty) = Inr ()"
    by code_simp
  then have h: "write_encrypted_file ?cdn ?item ''/abcdef'' (- 1) ''u-1'' Map.empty
      = (Inr (), snd (write_encrypted_file ?cdn ?item ''/abcdef'' (- 1) ''u-1'' Map.empty))"
    by (simp add: prod_eq_iff)
  from write_encrypted_file_location [OF h] f show ?thesis
    by (simp add: loc)
qed

end
